theory Spec2Isabelle
  imports Main "HOL-Library.AList"
begin

section \<open>The rotating cache of \<^verbatim>\<open>src/index.js\<close>\<close>

text \<open>
  The class \<^verbatim>\<open>RotatingCache\<close> keeps its entries in a plain JavaScript object
  (\<^verbatim>\<open>this.data = {}\<close>), its counters in \<^verbatim>\<open>this.stats\<close> and the handle of one
  \<^verbatim>\<open>setTimeout\<close> in \<^verbatim>\<open>this.checkTimeout\<close>. Every method is modelled as a function
  from the cache before the call to the outcome of the call and the cache after it. The
  readings of \<^verbatim>\<open>Date.now()\<close> are arguments. Timestamps, ttl values and the numeric
  options are integers (JavaScript numbers are exact on them up to \<open>2^53\<close>).
\<close>

subsection \<open>Values and the size estimator\<close>

text \<open>
  A cached value, as far as \<^verbatim>\<open>_getValueSize\<close> tells values apart. \<open>VThenable\<close> is a
  value whose \<^verbatim>\<open>then\<close> is a function; \<open>VObject\<close> carries the own enumerable properties
  of any other object; \<open>VOther\<close> is a function, symbol or bigint.
\<close>

datatype jsvalue =
    VNull
  | VUndefined
  | VArray "jsvalue list"
  | VThenable
  | VString string
  | VNumber int
  | VBoolean bool
  | VObject "(string \<times> jsvalue) list"
  | VOther

record Options =
  maxKeys :: int
  stdTTL :: int
  checkperiod :: int
  useClones :: bool
  deleteOnExpire :: bool
  rotateType :: string
  objectValueSize :: int
  promiseValueSize :: int
  arrayValueSize :: int
  ttlScale :: int

definition DEFAULT_OPTIONS :: Options where
  "DEFAULT_OPTIONS =
     \<lparr>maxKeys = 2500, stdTTL = -1, checkperiod = 600, useClones = True,
      deleteOnExpire = True, rotateType = ''oldest'', objectValueSize = 80,
      promiseValueSize = 80, arrayValueSize = 40, ttlScale = 1000\<rparr>"

definition ROTATE_TYPES :: "string list" where
  "ROTATE_TYPES = [''oldest'', ''inactive'', ''expiry'']"

fun getValueSize :: "Options \<Rightarrow> jsvalue \<Rightarrow> int" where
  "getValueSize opts VNull = 0"
| "getValueSize opts VUndefined = 0"
| "getValueSize opts (VArray xs) = arrayValueSize opts * int (length xs)"
| "getValueSize opts VThenable = promiseValueSize opts"
| "getValueSize opts (VString s) = int (length s)"
| "getValueSize opts (VNumber n) = 8"
| "getValueSize opts (VBoolean b) = 8"
| "getValueSize opts (VObject props) = int (length props) * objectValueSize opts"
| "getValueSize opts VOther = 0"

definition getKeySize :: "string \<Rightarrow> int" where
  "getKeySize key = int (length key)"

subsection \<open>Entries, statistics and the cache\<close>

record Entry =
  val :: jsvalue
  esize :: int
  ttl :: int
  added :: int
  lastAccess :: int

text \<open>
  \<^verbatim>\<open>stats.valueSize\<close> is the one counter that can leave the integers: subtracting the
  \<^verbatim>\<open>size\<close> of something that has none subtracts \<^verbatim>\<open>undefined\<close>, which gives \<^verbatim>\<open>NaN\<close>.
\<close>

datatype jsnum = Num int | NaN

fun jsnum_add :: "jsnum \<Rightarrow> jsnum \<Rightarrow> jsnum" where
  "jsnum_add (Num a) (Num b) = Num (a + b)"
| "jsnum_add _ _ = NaN"

fun jsnum_sub :: "jsnum \<Rightarrow> jsnum \<Rightarrow> jsnum" where
  "jsnum_sub (Num a) (Num b) = Num (a - b)"
| "jsnum_sub _ _ = NaN"

record Stats =
  keys :: int
  hits :: int
  misses :: int
  keySize :: int
  valueSize :: jsnum

text \<open>
  \<open>data\<close> lists the own properties of \<^verbatim>\<open>this.data\<close> in the order they were created;
  \<open>checkTimeout\<close> is \<open>Some delay\<close> while the timeout set by the constructor is pending
  and \<open>None\<close> once it has fired or has been cleared.
\<close>

record RotatingCache =
  data :: "(string \<times> Entry) list"
  options :: Options
  stats :: Stats
  checkTimeout :: "int option"

datatype error = InvalidRotateType | CapacityExceeded | KeyNotFound | TypeError | Unmodelled

subsection \<open>Property lookup on a plain object\<close>

text \<open>
  \<^verbatim>\<open>this.data[key]\<close> reads an own property or, when there is none, a property
  inherited from \<^verbatim>\<open>Object.prototype\<close>. The inherited ones are built-in functions, and
  \<^verbatim>\<open>__proto__\<close> reads the prototype object itself: all of them are truthy, and none has
  a \<^verbatim>\<open>size\<close>, \<^verbatim>\<open>ttl\<close> or \<^verbatim>\<open>value\<close>.
\<close>

definition object_prototype_names :: "string list" where
  "object_prototype_names =
     [''constructor'', ''__defineGetter__'', ''__defineSetter__'', ''hasOwnProperty'',
      ''__lookupGetter__'', ''__lookupSetter__'', ''isPrototypeOf'',
      ''propertyIsEnumerable'', ''toString'', ''valueOf'', ''__proto__'',
      ''toLocaleString'']"

datatype slot = Missing | Own Entry | Inherited

definition lookup :: "(string \<times> Entry) list \<Rightarrow> string \<Rightarrow> slot" where
  "lookup d key =
     (case map_of d key of
        Some e \<Rightarrow> Own e
      | None \<Rightarrow> if key \<in> set object_prototype_names then Inherited else Missing)"

text \<open>
  \<^verbatim>\<open>Object.keys\<close> lists the array-index keys (canonical decimal numerals below
  \<open>2^32 - 1\<close>) in ascending numeric order, then the other keys in creation order.
\<close>

definition digit_value :: "char \<Rightarrow> int option" where
  "digit_value = map_of (zip ''0123456789'' [0, 1, 2, 3, 4, 5, 6, 7, 8, 9])"

fun numeral_value :: "int \<Rightarrow> string \<Rightarrow> int option" where
  "numeral_value acc [] = Some acc"
| "numeral_value acc (c # cs) =
     (case digit_value c of
        None \<Rightarrow> None
      | Some v \<Rightarrow> numeral_value (10 * acc + v) cs)"

definition array_index :: "string \<Rightarrow> int option" where
  "array_index key =
     (case key of
        [] \<Rightarrow> None
      | c # cs \<Rightarrow>
          if c = CHR ''0'' \<and> cs \<noteq> [] then None
          else (case numeral_value 0 key of
                  None \<Rightarrow> None
                | Some n \<Rightarrow> if n < 4294967295 then Some n else None))"

definition object_props :: "(string \<times> 'v) list \<Rightarrow> (string \<times> 'v) list" where
  "object_props d =
     sort_key (\<lambda>p. the (array_index (fst p))) (filter (\<lambda>p. array_index (fst p) \<noteq> None) d)
     @ filter (\<lambda>p. array_index (fst p) = None) d"

definition object_keys :: "(string \<times> 'v) list \<Rightarrow> string list" where
  "object_keys d = map fst (object_props d)"

subsection \<open>\<^verbatim>\<open>Array.prototype.sort\<close>\<close>

text \<open>
  The comparator returns a number, of which \<^verbatim>\<open>sort\<close> uses the sign: a positive result
  puts its first argument after its second. The sort is stable. With a comparator that
  is a consistent ordering the result is the same in every engine; it is computed here
  by insertion. The comparators of \<^verbatim>\<open>oldest\<close> and \<^verbatim>\<open>inactive\<close> are consistent, and so is
  the one of \<^verbatim>\<open>expiry\<close> as long as no entry has \<^verbatim>\<open>ttl === -1\<close>. With such an entry
  among others the language leaves the order to the engine, and \<open>js_sort\<close> is then one
  possible outcome; the results below that involve \<^verbatim>\<open>expiry\<close> do not depend on it.
\<close>

datatype jsorder = Finite int | Infinity

fun positive :: "jsorder \<Rightarrow> bool" where
  "positive (Finite n) = (0 < n)"
| "positive Infinity = True"

fun insert_by :: "('a \<Rightarrow> 'a \<Rightarrow> jsorder) \<Rightarrow> 'a \<Rightarrow> 'a list \<Rightarrow> 'a list" where
  "insert_by cmp x [] = [x]"
| "insert_by cmp x (y # ys) =
     (if positive (cmp x y) then y # insert_by cmp x ys else x # y # ys)"

fun js_sort :: "('a \<Rightarrow> 'a \<Rightarrow> jsorder) \<Rightarrow> 'a list \<Rightarrow> 'a list" where
  "js_sort cmp [] = []"
| "js_sort cmp (x # xs) = insert_by cmp x (js_sort cmp xs)"

text \<open>\<^verbatim>\<open>xs[0]\<close>: \<open>None\<close> stands for \<^verbatim>\<open>undefined\<close>.\<close>

fun first :: "'a list \<Rightarrow> 'a option" where
  "first [] = None"
| "first (x # xs) = Some x"

subsection \<open>\<^verbatim>\<open>del\<close>\<close>

text \<open>
  \<^verbatim>\<open>delete this.data[key]\<close> removes an own property and does nothing otherwise. On an
  inherited name the guard \<^verbatim>\<open>!this.data[key]\<close> does not return, the counters are
  decremented all the same, and \<^verbatim>\<open>valueSize\<close> becomes \<^verbatim>\<open>NaN\<close>.
\<close>

definition del :: "string \<Rightarrow> RotatingCache \<Rightarrow> int \<times> RotatingCache" where
  "del key c =
     (case lookup (data c) key of
        Missing \<Rightarrow> (0, c)
      | Own e \<Rightarrow>
          (1, c\<lparr>stats := (stats c)\<lparr>keySize := keySize (stats c) - getKeySize key,
                                  valueSize := jsnum_sub (valueSize (stats c)) (Num (esize e)),
                                  keys := keys (stats c) - 1\<rparr>,
                 data := AList.delete key (data c)\<rparr>)
      | Inherited \<Rightarrow>
          (1, c\<lparr>stats := (stats c)\<lparr>keySize := keySize (stats c) - getKeySize key,
                                  valueSize := jsnum_sub (valueSize (stats c)) NaN,
                                  keys := keys (stats c) - 1\<rparr>\<rparr>))"

subsection \<open>\<^verbatim>\<open>set\<close>\<close>

definition getTTLDate :: "Options \<Rightarrow> Entry \<Rightarrow> int" where
  "getTTLDate opts e = ttl e * ttlScale opts"

definition cmp_oldest :: "string \<times> Entry \<Rightarrow> string \<times> Entry \<Rightarrow> jsorder" where
  "cmp_oldest a b = Finite (added (snd b) - added (snd a))"

definition cmp_inactive :: "string \<times> Entry \<Rightarrow> string \<times> Entry \<Rightarrow> jsorder" where
  "cmp_inactive a b = Finite (lastAccess (snd b) - lastAccess (snd a))"

definition cmp_expiry :: "Options \<Rightarrow> string \<times> Entry \<Rightarrow> string \<times> Entry \<Rightarrow> jsorder" where
  "cmp_expiry opts a b =
     (if ttl (snd a) = -1 then Infinity
      else Finite (getTTLDate opts (snd a) - getTTLDate opts (snd b)))"

text \<open>
  The \<^verbatim>\<open>switch\<close> of \<^verbatim>\<open>set\<close>: the key to delete (\<open>None\<close> is \<^verbatim>\<open>undefined\<close>, the first
  element of an empty array), or the error of the \<^verbatim>\<open>default\<close> branch. The comparators
  read \<^verbatim>\<open>this.data[a]\<close> and \<^verbatim>\<open>this.data[b]\<close> for own keys; the model sorts the keys
  together with their entries.
\<close>

definition delKey :: "RotatingCache \<Rightarrow> error + string option" where
  "delKey c =
     (if rotateType (options c) = ''oldest'' then
        Inr (first (map fst (js_sort cmp_oldest (object_props (data c)))))
      else if rotateType (options c) = ''inactive'' then
        Inr (first (map fst (js_sort cmp_inactive (object_props (data c)))))
      else if rotateType (options c) = ''expiry'' then
        Inr (first (map fst (js_sort (cmp_expiry (options c)) (object_props (data c)))))
      else Inl CapacityExceeded)"

text \<open>
  \<^verbatim>\<open>this.del(delKey)\<close>: with \<^verbatim>\<open>undefined\<close>, \<^verbatim>\<open>_makeKey\<close> raises a \<^verbatim>\<open>TypeError\<close>.
\<close>

definition rotate :: "RotatingCache \<Rightarrow> (error + unit) \<times> RotatingCache" where
  "rotate c =
     (case delKey c of
        Inl err \<Rightarrow> (Inl err, c)
      | Inr None \<Rightarrow> (Inl TypeError, c)
      | Inr (Some k) \<Rightarrow> (Inr (), snd (del k c)))"

definition store :: "string \<Rightarrow> jsvalue \<Rightarrow> int option \<Rightarrow> int \<Rightarrow> int \<Rightarrow> RotatingCache \<Rightarrow> RotatingCache" where
  "store key v ttl_arg t_added t_access c =
     (let sz = getValueSize (options c) v in
      c\<lparr>stats := (stats c)\<lparr>keys := keys (stats c) + 1,
                            keySize := keySize (stats c) + getKeySize key,
                            valueSize := jsnum_add (valueSize (stats c)) (Num sz)\<rparr>,
        data := AList.update key
                  \<lparr>val = v, esize = sz,
                   ttl = (case ttl_arg of Some t \<Rightarrow> t | None \<Rightarrow> stdTTL (options c)),
                   added = t_added, lastAccess = t_access\<rparr>
                  (data c)\<rparr>)"

text \<open>The first two statements of \<^verbatim>\<open>set\<close>: the old entry goes, then room is made.\<close>

definition drop_existing :: "string \<Rightarrow> RotatingCache \<Rightarrow> RotatingCache" where
  "drop_existing key c = (if lookup (data c) key = Missing then c else snd (del key c))"

definition make_room :: "RotatingCache \<Rightarrow> (error + unit) \<times> RotatingCache" where
  "make_room c =
     (if keys (stats c) + 1 > maxKeys (options c) then rotate c else (Inr (), c))"

text \<open>
  \<open>set_op key v ttl_arg t_added t_access\<close> is \<^verbatim>\<open>set(key, value, ttl)\<close> with the two
  readings of \<^verbatim>\<open>Date.now()\<close>; \<open>ttl_arg = None\<close> is a \<^verbatim>\<open>null\<close> or missing ttl.

  Assigning to \<^verbatim>\<open>this.data['__proto__']\<close> does not create a property: it replaces the
  prototype of \<^verbatim>\<open>this.data\<close> by the entry, whose fields are then read as inherited
  properties. The model does not follow the cache there and answers \<open>Unmodelled\<close>.
\<close>

definition set_op ::
  "string \<Rightarrow> jsvalue \<Rightarrow> int option \<Rightarrow> int \<Rightarrow> int \<Rightarrow> RotatingCache \<Rightarrow> (error + unit) \<times> RotatingCache" where
  "set_op key v ttl_arg t_added t_access c =
     (if key = ''__proto__'' then (Inl Unmodelled, c)
      else
        case make_room (drop_existing key c) of
          (Inl err, c2) \<Rightarrow> (Inl err, c2)
        | (Inr u, c2) \<Rightarrow> (Inr (), store key v ttl_arg t_added t_access c2))"

subsection \<open>\<^verbatim>\<open>mset\<close>\<close>

text \<open>
  \<open>clock i\<close> gives the two readings of \<^verbatim>\<open>Date.now()\<close> while element \<open>i\<close> of the batch
  is set. An exception of \<^verbatim>\<open>set\<close> ends the \<^verbatim>\<open>forEach\<close>.
\<close>

fun mset_each ::
  "(string \<times> jsvalue \<times> int option) list \<Rightarrow> (nat \<Rightarrow> int \<times> int) \<Rightarrow> nat \<Rightarrow> RotatingCache
     \<Rightarrow> (error + unit) \<times> RotatingCache" where
  "mset_each [] clock i c = (Inr (), c)"
| "mset_each ((key, v, ttl_arg) # rest) clock i c =
     (case set_op key v ttl_arg (fst (clock i)) (snd (clock i)) c of
        (Inl err, c') \<Rightarrow> (Inl err, c')
      | (Inr u, c') \<Rightarrow> mset_each rest clock (Suc i) c')"

definition mset ::
  "(string \<times> jsvalue \<times> int option) list \<Rightarrow> (nat \<Rightarrow> int \<times> int) \<Rightarrow> RotatingCache
     \<Rightarrow> (error + unit) \<times> RotatingCache" where
  "mset batch clock c =
     (if keys (stats c) + int (length batch) > maxKeys (options c)
         \<and> rotateType (options c) \<notin> set ROTATE_TYPES
      then (Inl CapacityExceeded, c)
      else mset_each batch clock 0 c)"

subsection \<open>\<^verbatim>\<open>get\<close> and \<^verbatim>\<open>ttl\<close>\<close>

text \<open>
  On an inherited name \<^verbatim>\<open>get\<close> counts a hit, writes \<^verbatim>\<open>lastAccess\<close> on the built-in
  function it found and returns that function's \<^verbatim>\<open>value\<close>, which is \<^verbatim>\<open>undefined\<close>; on
  \<^verbatim>\<open>__proto__\<close> the write goes to \<^verbatim>\<open>Object.prototype\<close> itself, which the model does
  not follow. With \<^verbatim>\<open>useClones\<close> the code returns what the external \<^verbatim>\<open>deep-copy\<close> module
  makes of the stored value; that module is not described here, and \<open>get\<close> gives the
  stored value itself. Only the cache after the call is used below.
\<close>

definition get :: "string \<Rightarrow> int \<Rightarrow> RotatingCache \<Rightarrow> (error + jsvalue) \<times> RotatingCache" where
  "get key now c =
     (case lookup (data c) key of
        Own e \<Rightarrow>
          (Inr (val e),
           c\<lparr>stats := (stats c)\<lparr>hits := hits (stats c) + 1\<rparr>,
             data := AList.update key (e\<lparr>lastAccess := now\<rparr>) (data c)\<rparr>)
      | Inherited \<Rightarrow>
          if key = ''__proto__'' then (Inl Unmodelled, c)
          else (Inr VUndefined, c\<lparr>stats := (stats c)\<lparr>hits := hits (stats c) + 1\<rparr>\<rparr>)
      | Missing \<Rightarrow>
          (Inr VUndefined, c\<lparr>stats := (stats c)\<lparr>misses := misses (stats c) + 1\<rparr>\<rparr>))"

definition ttl_op :: "string \<Rightarrow> int \<Rightarrow> RotatingCache \<Rightarrow> (error + unit) \<times> RotatingCache" where
  "ttl_op key t c =
     (case lookup (data c) key of
        Missing \<Rightarrow> (Inl KeyNotFound, c)
      | Own e \<Rightarrow>
          if t = 0 then (Inr (), snd (del key c))
          else (Inr (), c\<lparr>data := AList.update key (e\<lparr>ttl := t\<rparr>) (data c)\<rparr>)
      | Inherited \<Rightarrow>
          if t = 0 then (Inr (), snd (del key c))
          else if key = ''__proto__'' then (Inl Unmodelled, c)
          else (Inr (), c))"

subsection \<open>The constructor, the timeout and \<^verbatim>\<open>_expire\<close>\<close>

text \<open>
  \<open>fresh opts\<close> is the object the constructor builds from the merged options \<open>opts\<close>
  (the defaults overridden by the caller's), once the rotation type has been accepted.
\<close>

definition fresh :: "Options \<Rightarrow> RotatingCache" where
  "fresh opts =
     \<lparr>data = [], options = opts,
      stats = \<lparr>keys = 0, hits = 0, misses = 0, keySize = 0, valueSize = Num 0\<rparr>,
      checkTimeout = Some (checkperiod opts * ttlScale opts)\<rparr>"

definition new_cache :: "Options \<Rightarrow> error + RotatingCache" where
  "new_cache opts =
     (if rotateType opts \<in> set (ROTATE_TYPES @ [''none'']) then Inr (fresh opts)
      else Inl InvalidRotateType)"

definition close :: "RotatingCache \<Rightarrow> RotatingCache" where
  "close c = c\<lparr>checkTimeout := None\<rparr>"

text \<open>
  The body of the loop of \<^verbatim>\<open>_expire\<close> for one key of the snapshot \<^verbatim>\<open>Object.keys(this.data)\<close>.
  Reading \<^verbatim>\<open>ttl\<close> of a key that is gone raises a \<^verbatim>\<open>TypeError\<close>; the \<^verbatim>\<open>ttl\<close> of an
  inherited function is \<^verbatim>\<open>undefined\<close>, which is not above \<open>-1\<close>.
\<close>

definition expired :: "Options \<Rightarrow> int \<Rightarrow> Entry \<Rightarrow> bool" where
  "expired opts now e = (ttl e > -1 \<and> added e + getTTLDate opts e < now)"

fun expire_each :: "int \<Rightarrow> string list \<Rightarrow> RotatingCache \<Rightarrow> (error + unit) \<times> RotatingCache" where
  "expire_each now [] c = (Inr (), c)"
| "expire_each now (key # rest) c =
     (case lookup (data c) key of
        Missing \<Rightarrow> (Inl TypeError, c)
      | Inherited \<Rightarrow> expire_each now rest c
      | Own e \<Rightarrow>
          expire_each now rest (if expired (options c) now e then snd (del key c) else c))"

definition expire :: "int \<Rightarrow> RotatingCache \<Rightarrow> (error + unit) \<times> RotatingCache" where
  "expire now c = expire_each now (object_keys (data c)) c"

text \<open>
  The host runs the callback of a pending \<^verbatim>\<open>setTimeout\<close> once, after which that
  timeout is spent; a cleared timeout never runs.
\<close>

definition timeout_fires :: "int \<Rightarrow> RotatingCache \<Rightarrow> (error + unit) \<times> RotatingCache" where
  "timeout_fires now c =
     (case checkTimeout c of
        None \<Rightarrow> (Inr (), c)
      | Some delay \<Rightarrow> expire now (c\<lparr>checkTimeout := None\<rparr>))"

subsection \<open>Sequences of calls\<close>

text \<open>
  A call of the public interface, or the host firing the timeout, with the clock
  readings it takes. \<open>apply_op\<close> gives the cache after the call, also when the call
  raised.
\<close>

datatype op =
    OpSet string jsvalue "int option" int int
  | OpDel string
  | OpGet string int
  | OpTtl string int
  | OpClose
  | OpTimeout int

fun apply_op :: "RotatingCache \<Rightarrow> op \<Rightarrow> RotatingCache" where
  "apply_op c (OpSet key v ttl_arg t_added t_access) = snd (set_op key v ttl_arg t_added t_access c)"
| "apply_op c (OpDel key) = snd (del key c)"
| "apply_op c (OpGet key now) = snd (get key now c)"
| "apply_op c (OpTtl key t) = snd (ttl_op key t c)"
| "apply_op c OpClose = close c"
| "apply_op c (OpTimeout now) = snd (timeout_fires now c)"

definition run :: "op list \<Rightarrow> RotatingCache \<Rightarrow> RotatingCache" where
  "run ops c = foldl apply_op c ops"

text \<open>
  A \<^verbatim>\<open>set\<close> or \<^verbatim>\<open>del\<close> whose key does not name a property of \<^verbatim>\<open>Object.prototype\<close>.
\<close>

fun ordinary_set_del :: "op \<Rightarrow> bool" where
  "ordinary_set_del (OpSet key v ttl_arg t_added t_access) = (key \<notin> set object_prototype_names)"
| "ordinary_set_del (OpDel key) = (key \<notin> set object_prototype_names)"
| "ordinary_set_del other = False"

subsection \<open>The aggregates over the live entries\<close>

definition live_keys :: "RotatingCache \<Rightarrow> int" where
  "live_keys c = int (length (data c))"

definition live_keySize :: "RotatingCache \<Rightarrow> int" where
  "live_keySize c = sum_list (map (\<lambda>p. getKeySize (fst p)) (data c))"

definition live_valueSize :: "RotatingCache \<Rightarrow> int" where
  "live_valueSize c = sum_list (map (\<lambda>p. esize (snd p)) (data c))"

definition accounted :: "RotatingCache \<Rightarrow> bool" where
  "accounted c =
     (keys (stats c) = live_keys c \<and> keySize (stats c) = live_keySize c
      \<and> valueSize (stats c) = Num (live_valueSize c))"

section \<open>Facts about the operations\<close>

lemma del_options [simp]: "options (snd (del key c)) = options c"
  by (simp add: del_def split: slot.splits)

lemma del_checkTimeout [simp]: "checkTimeout (snd (del key c)) = checkTimeout c"
  by (simp add: del_def split: slot.splits)

lemma rotate_options [simp]: "options (snd (rotate c)) = options c"
  by (simp add: rotate_def split: sum.splits option.splits)

lemma drop_existing_options [simp]: "options (drop_existing key c) = options c"
  by (simp add: drop_existing_def)

lemma make_room_options [simp]: "options (snd (make_room c)) = options c"
  by (simp add: make_room_def)

text \<open>A call of \<^verbatim>\<open>set\<close> that returns has stored the entry in the cache with room made.\<close>

lemma set_op_Inr:
  assumes "fst (set_op key v ttl_arg t_added t_access c) = Inr ()"
  shows "key \<noteq> ''__proto__'' \<and> fst (make_room (drop_existing key c)) = Inr () \<and>
         snd (set_op key v ttl_arg t_added t_access c) =
           store key v ttl_arg t_added t_access (snd (make_room (drop_existing key c)))"
  using assms unfolding set_op_def
  by (cases "make_room (drop_existing key c)") (auto split: if_splits sum.splits)

lemma set_op_stores:
  assumes "fst (set_op key v ttl_arg t_added t_access c) = Inr ()"
  shows "map_of (data (snd (set_op key v ttl_arg t_added t_access c))) key =
           Some \<lparr>val = v, esize = getValueSize (options c) v,
                 ttl = (case ttl_arg of Some t \<Rightarrow> t | None \<Rightarrow> stdTTL (options c)),
                 added = t_added, lastAccess = t_access\<rparr>"
proof -
  from set_op_Inr [OF assms]
  have "snd (set_op key v ttl_arg t_added t_access c) =
          store key v ttl_arg t_added t_access (snd (make_room (drop_existing key c)))"
    by blast
  then show ?thesis
    by (simp add: store_def Let_def update_conv' split: option.splits)
qed

lemma expire_each_checkTimeout:
  "checkTimeout (snd (expire_each now ks c)) = checkTimeout c"
  by (induction ks arbitrary: c) (auto split: slot.splits)

text \<open>Whatever the cache and the time, no timeout is pending once the timeout has fired.\<close>

lemma timeout_fires_spent: "checkTimeout (snd (timeout_fires now c)) = None"
  by (simp add: timeout_fires_def expire_def expire_each_checkTimeout split: option.splits)

subsection \<open>The keys listed by \<^verbatim>\<open>Object.keys\<close>\<close>

lemma set_object_props [simp]: "set (object_props d) = set d"
  by (auto simp: object_props_def)

lemma set_object_keys [simp]: "set (object_keys d) = fst ` set d"
  by (simp add: object_keys_def)

lemma distinct_object_keys:
  assumes "distinct (map fst d)"
  shows "distinct (object_keys d)"
proof -
  from assms have d: "distinct d" and inj: "inj_on fst (set d)"
    by (simp_all add: distinct_map)
  have "distinct (object_props d)"
    using d by (auto simp: object_props_def)
  moreover have "inj_on fst (set (object_props d))"
    using inj by simp
  ultimately show ?thesis
    by (simp add: object_keys_def distinct_map)
qed

lemma lookup_Own:
  assumes "distinct (map fst d)" and "(k, e) \<in> set d"
  shows "lookup d k = Own e"
  using assms by (simp add: lookup_def)

lemma del_Own_data:
  assumes "lookup (data c) k = Own e"
  shows "data (snd (del k c)) = filter (\<lambda>p. fst p \<noteq> k) (data c)"
  using assms by (simp add: del_def AList.delete_eq case_prod_unfold eq_commute [of k])

lemma expire_each_filter:
  assumes "distinct (map fst (data c))" and "distinct ks" and "set ks \<subseteq> fst ` set (data c)"
  shows "fst (expire_each now ks c) = Inr () \<and>
         data (snd (expire_each now ks c)) =
           filter (\<lambda>p. \<not> (fst p \<in> set ks \<and> expired (options c) now (snd p))) (data c)"
  using assms
proof (induction ks arbitrary: c)
  case Nil
  then show ?case by simp
next
  case (Cons k ks)
  from Cons.prems obtain e where mem: "(k, e) \<in> set (data c)"
    by auto
  with Cons.prems have own: "lookup (data c) k = Own e"
    by (simp add: lookup_Own)
  have uniq: "p = (k, e)" if "p \<in> set (data c)" and "fst p = k" for p
    using that mem Cons.prems(1) by (metis eq_key_imp_eq_value prod.collapse)
  from Cons.prems have notin: "k \<notin> set ks" and dks: "distinct ks"
    and sub: "set ks \<subseteq> fst ` set (data c)"
    by auto
  show ?case
  proof (cases "expired (options c) now e")
    case True
    let ?c1 = "snd (del k c)"
    have d1: "data ?c1 = filter (\<lambda>p. fst p \<noteq> k) (data c)"
      by (rule del_Own_data [OF own])
    have dist1: "distinct (map fst (data ?c1))"
      using Cons.prems(1) by (simp add: d1 distinct_map_filter)
    have sub1: "set ks \<subseteq> fst ` set (data ?c1)"
      using sub notin by (auto simp: d1 image_iff) 
    from Cons.IH [OF dist1 dks sub1]
    have "fst (expire_each now ks ?c1) = Inr ()"
      and "data (snd (expire_each now ks ?c1)) =
             filter (\<lambda>p. \<not> (fst p \<in> set ks \<and> expired (options c) now (snd p))) (data ?c1)"
      by simp_all
    moreover have "filter (\<lambda>p. \<not> (fst p \<in> set ks \<and> expired (options c) now (snd p))) (data ?c1) =
        filter (\<lambda>p. \<not> (fst p \<in> set (k # ks) \<and> expired (options c) now (snd p))) (data c)"
      unfolding d1 filter_filter
      by (rule filter_cong [OF refl]) (use True uniq in auto)
    ultimately show ?thesis
      using own True by simp
  next
    case False
    from Cons.IH [OF Cons.prems(1) dks sub]
    have "fst (expire_each now ks c) = Inr ()"
      and "data (snd (expire_each now ks c)) =
             filter (\<lambda>p. \<not> (fst p \<in> set ks \<and> expired (options c) now (snd p))) (data c)"
      by simp_all
    moreover have "filter (\<lambda>p. \<not> (fst p \<in> set ks \<and> expired (options c) now (snd p))) (data c) =
        filter (\<lambda>p. \<not> (fst p \<in> set (k # ks) \<and> expired (options c) now (snd p))) (data c)"
      by (rule filter_cong [OF refl]) (use False uniq in auto)
    ultimately show ?thesis
      using own False by simp
  qed
qed

subsection \<open>The key counter under \<^verbatim>\<open>set\<close>\<close>

lemma del_keys_le: "keys (stats (snd (del k c))) \<le> keys (stats c)"
  by (simp add: del_def split: slot.splits)

lemma drop_existing_keys_le: "keys (stats (drop_existing k c)) \<le> keys (stats c)"
  by (simp add: drop_existing_def del_keys_le)

lemma store_options [simp]: "options (store key v a t1 t2 c) = options c"
  by (simp add: store_def Let_def)

lemma set_op_options [simp]: "options (snd (set_op key v a t1 t2 c)) = options c"
proof -
  have "options (snd (make_room (drop_existing key c))) = options c"
    by simp
  then show ?thesis
    unfolding set_op_def
    by (cases "make_room (drop_existing key c)") (auto split: sum.splits)
qed

lemma set_op_with_room:
  assumes "keys (stats c) + 1 \<le> maxKeys (options c)"
  shows "fst (set_op key v a t1 t2 c) \<noteq> Inl CapacityExceeded \<and>
         keys (stats (snd (set_op key v a t1 t2 c))) \<le> keys (stats c) + 1"
proof -
  have le: "keys (stats (drop_existing key c)) \<le> keys (stats c)"
    by (rule drop_existing_keys_le)
  with assms have "make_room (drop_existing key c) = (Inr (), drop_existing key c)"
    by (simp add: make_room_def)
  with le show ?thesis
    by (simp add: set_op_def store_def Let_def)
qed

lemma mset_each_with_room:
  assumes "keys (stats c) + int (length batch) \<le> maxKeys (options c)"
  shows "fst (mset_each batch clock i c) \<noteq> Inl CapacityExceeded"
  using assms
proof (induction batch arbitrary: c i)
  case Nil
  then show ?case by simp
next
  case (Cons item batch)
  obtain key v a where item: "item = (key, v, a)"
    by (cases item)
  let ?r = "set_op key v a (fst (clock i)) (snd (clock i)) c"
  from Cons.prems have room: "keys (stats c) + 1 \<le> maxKeys (options c)"
    by simp
  from set_op_with_room [OF room]
  have ne: "fst ?r \<noteq> Inl CapacityExceeded" and le: "keys (stats (snd ?r)) \<le> keys (stats c) + 1"
    by blast+
  show ?case
  proof (cases "fst ?r")
    case (Inl err)
    with ne show ?thesis
      by (cases ?r) (simp add: item)
  next
    case (Inr u)
    from le Cons.prems have "keys (stats (snd ?r)) + int (length batch) \<le> maxKeys (options (snd ?r))"
      by simp
    from Cons.IH [OF this] Inr show ?thesis
      by (cases ?r) (simp add: item)
  qed
qed

subsection \<open>The key that rotation deletes is an entry\<close>

lemma set_insert_by [simp]: "set (insert_by cmp x xs) = insert x (set xs)"
  by (induction xs) auto

lemma set_js_sort [simp]: "set (js_sort cmp xs) = set xs"
  by (induction xs) auto

lemma first_Some_mem: "first xs = Some x \<Longrightarrow> x \<in> set xs"
  by (cases xs) auto

lemma delKey_own:
  assumes "delKey c = Inr (Some k)"
  shows "k \<in> fst ` set (data c)"
proof -
  from assms obtain cmp where "first (map fst (js_sort cmp (object_props (data c)))) = Some k"
    by (auto simp: delKey_def split: if_splits)
  from first_Some_mem [OF this] show ?thesis
    by simp
qed

lemma own_lookup:
  assumes "k \<in> fst ` set d"
  shows "\<exists>e. lookup d k = Own e \<and> (k, e) \<in> set d"
proof -
  from assms obtain e where "map_of d k = Some e"
    by (metis domD dom_map_of_conv_image_fst) 
  then show ?thesis
    by (auto simp: lookup_def dest: map_of_SomeD)
qed

subsection \<open>The counters follow the entries for ordinary keys\<close>

text \<open>
  For keys that do not name a property of \<^verbatim>\<open>Object.prototype\<close>, \<^verbatim>\<open>set\<close> and \<^verbatim>\<open>del\<close>
  keep the counters equal to the aggregates over the entries, eviction included.
\<close>

lemma sum_list_delete:
  fixes f :: "string \<times> Entry \<Rightarrow> int"
  assumes "distinct (map fst d)" and "(k, e) \<in> set d"
  shows "sum_list (map f (AList.delete k d)) = sum_list (map f d) - f (k, e)"
  using assms
proof (induction d)
  case Nil
  then show ?case by simp
next
  case (Cons p d)
  show ?case
  proof (cases "fst p = k")
    case True
    with Cons.prems have "p = (k, e)" and "k \<notin> fst ` set d"
      by (auto simp: image_iff)
    then show ?thesis by simp
  next
    case False
    with Cons show ?thesis by auto
  qed
qed

lemma length_delete:
  fixes d :: "(string \<times> Entry) list"
  assumes "distinct (map fst d)" and "(k, e) \<in> set d"
  shows "int (length (AList.delete k d)) = int (length d) - 1"
  using sum_list_delete [OF assms, of "\<lambda>p. 1"] by (simp add: sum_list_triv)

lemma update_fresh: "k \<notin> fst ` set d \<Longrightarrow> AList.update k v d = d @ [(k, v)]"
  by (induction d) auto

lemma del_Own_accounted:
  assumes "accounted c" and "distinct (map fst (data c))" and "lookup (data c) k = Own e"
  shows "accounted (snd (del k c))"
proof -
  from assms(3) have mem: "(k, e) \<in> set (data c)"
    by (auto simp: lookup_def split: option.splits if_splits dest: map_of_SomeD)
  from assms(1) sum_list_delete [OF assms(2) mem] length_delete [OF assms(2) mem] assms(3)
  show ?thesis
    by (simp add: accounted_def del_def live_keys_def live_keySize_def live_valueSize_def)
qed

lemma del_distinct: "distinct (map fst (data c)) \<Longrightarrow> distinct (map fst (data (snd (del k c))))"
  by (simp add: del_def distinct_delete split: slot.splits)

lemma del_dom: "fst ` set (data (snd (del k c))) \<subseteq> fst ` set (data c)"
  by (auto simp: del_def AList.delete_eq split: slot.splits)

lemma del_plain_accounted:
  assumes "accounted c" and "distinct (map fst (data c))" and "k \<notin> set object_prototype_names"
  shows "accounted (snd (del k c))"
proof (cases "lookup (data c) k")
  case Missing
  with assms(1) show ?thesis by (simp add: del_def)
next
  case (Own e)
  from del_Own_accounted [OF assms(1,2) this] show ?thesis .
next
  case Inherited
  with assms(3) show ?thesis
    by (simp add: lookup_def split: option.splits if_splits)
qed

lemma rotate_accounted:
  assumes "accounted c" and "distinct (map fst (data c))"
  shows "accounted (snd (rotate c))"
proof (cases "delKey c")
  case (Inl err)
  with assms(1) show ?thesis by (simp add: rotate_def)
next
  case (Inr ko)
  show ?thesis
  proof (cases ko)
    case None
    with Inr assms(1) show ?thesis by (simp add: rotate_def)
  next
    case (Some k)
    with Inr have "k \<in> fst ` set (data c)"
      by (simp add: delKey_own)
    from own_lookup [OF this] obtain e where "lookup (data c) k = Own e"
      by blast
    from del_Own_accounted [OF assms this] Inr Some show ?thesis
      by (simp add: rotate_def)
  qed
qed

lemma rotate_distinct: "distinct (map fst (data c)) \<Longrightarrow> distinct (map fst (data (snd (rotate c))))"
  by (simp add: rotate_def del_distinct split: sum.splits option.splits)

lemma rotate_dom: "fst ` set (data (snd (rotate c))) \<subseteq> fst ` set (data c)"
  using del_dom by (simp add: rotate_def split: sum.splits option.splits)

lemma drop_existing_absent:
  assumes "k \<notin> set object_prototype_names"
  shows "k \<notin> fst ` set (data (drop_existing k c))"
proof (cases "lookup (data c) k")
  case Missing
  then have "map_of (data c) k = None"
    by (simp add: lookup_def split: option.splits)
  with Missing show ?thesis
    by (simp add: drop_existing_def map_of_eq_None_iff)
next
  case (Own e)
  then show ?thesis
    by (simp add: drop_existing_def del_def delete_notin_dom)
next
  case Inherited
  with assms show ?thesis
    by (simp add: lookup_def split: option.splits if_splits)
qed

lemma store_accounted:
  assumes "accounted c" and "k \<notin> fst ` set (data c)"
  shows "accounted (store k v a t1 t2 c)"
  using assms
  by (simp add: accounted_def store_def Let_def update_fresh live_keys_def live_keySize_def
      live_valueSize_def)

lemma store_distinct:
  "distinct (map fst (data c)) \<Longrightarrow> distinct (map fst (data (store k v a t1 t2 c)))"
  by (simp add: store_def Let_def distinct_update)

lemma set_op_result:
  "set_op key v a t1 t2 c = (Inl Unmodelled, c) \<and> key = ''__proto__'' \<or>
   key \<noteq> ''__proto__'' \<and>
   (\<exists>err. set_op key v a t1 t2 c = (Inl err, snd (make_room (drop_existing key c)))) \<or>
   key \<noteq> ''__proto__'' \<and>
   set_op key v a t1 t2 c = (Inr (), store key v a t1 t2 (snd (make_room (drop_existing key c))))"
  unfolding set_op_def
  by (cases "make_room (drop_existing key c)") (auto split: sum.splits)

lemma set_op_plain_accounted:
  assumes "accounted c" and "distinct (map fst (data c))" and "k \<notin> set object_prototype_names"
  shows "accounted (snd (set_op k v a t1 t2 c))"
proof -
  let ?c1 = "drop_existing k c"
  let ?c2 = "snd (make_room ?c1)"
  have a1: "accounted ?c1"
    using assms by (simp add: drop_existing_def del_plain_accounted)
  have d1: "distinct (map fst (data ?c1))"
    using assms(2) by (simp add: drop_existing_def del_distinct)
  have n1: "k \<notin> fst ` set (data ?c1)"
    by (rule drop_existing_absent [OF assms(3)])
  have a2: "accounted ?c2"
    using a1 d1 by (simp add: make_room_def rotate_accounted)
  have n2: "k \<notin> fst ` set (data ?c2)"
    using n1 rotate_dom [of ?c1] by (auto simp: make_room_def)
  from set_op_result [of k v a t1 t2 c] assms(1) a2 store_accounted [OF a2 n2]
  show ?thesis
    by auto
qed

lemma set_op_distinct:
  assumes "distinct (map fst (data c))"
  shows "distinct (map fst (data (snd (set_op k v a t1 t2 c))))"
proof -
  let ?c2 = "snd (make_room (drop_existing k c))"
  have "distinct (map fst (data ?c2))"
    using assms by (simp add: make_room_def drop_existing_def rotate_distinct del_distinct)
  with set_op_result [of k v a t1 t2 c] assms store_distinct [of ?c2]
  show ?thesis
    by auto
qed


lemma apply_ordinary_accounted:
  assumes "accounted c" and "distinct (map fst (data c))" and "ordinary_set_del x"
  shows "accounted (apply_op c x) \<and> distinct (map fst (data (apply_op c x)))"
  using assms
  by (cases x) (simp_all add: set_op_plain_accounted set_op_distinct del_plain_accounted del_distinct)

lemma run_ordinary_accounted:
  assumes "accounted c" and "distinct (map fst (data c))" and "list_all ordinary_set_del ops"
  shows "accounted (run ops c) \<and> distinct (map fst (data (run ops c)))"
  using assms
proof (induction ops arbitrary: c)
  case Nil
  then show ?case by (simp add: run_def)
next
  case (Cons x ops)
  from Cons.prems apply_ordinary_accounted [of c x]
  have "accounted (apply_op c x)" and "distinct (map fst (data (apply_op c x)))"
    by simp_all
  from Cons.IH [OF this] Cons.prems(3) show ?case
    by (simp add: run_def)
qed

lemma fresh_accounted: "accounted (fresh opts) \<and> distinct (map fst (data (fresh opts)))"
  by (simp add: accounted_def fresh_def live_keys_def live_keySize_def live_valueSize_def)

subsection \<open>Keys stay distinct\<close>

lemma expire_each_distinct:
  "distinct (map fst (data c)) \<Longrightarrow> distinct (map fst (data (snd (expire_each now ks c))))"
  by (induction ks arbitrary: c) (auto simp: del_distinct split: slot.splits)

lemma apply_op_distinct:
  assumes "distinct (map fst (data c))"
  shows "distinct (map fst (data (apply_op c x)))"
proof (cases x)
  case (OpSet key v a t1 t2)
  with assms show ?thesis by (simp add: set_op_distinct)
next
  case (OpDel key)
  with assms show ?thesis by (simp add: del_distinct)
next
  case (OpGet key now)
  with assms show ?thesis
    by (simp add: get_def distinct_update split: slot.splits)
next
  case (OpTtl key t)
  with assms show ?thesis
    by (simp add: ttl_op_def distinct_update del_distinct split: slot.splits)
next
  case OpClose
  with assms show ?thesis by (simp add: close_def)
next
  case (OpTimeout now)
  with assms show ?thesis
    by (simp add: timeout_fires_def expire_def expire_each_distinct split: option.splits)
qed

lemma run_distinct:
  "distinct (map fst (data c)) \<Longrightarrow> distinct (map fst (data (run ops c)))"
  unfolding run_def by (induction ops arbitrary: c) (simp_all add: apply_op_distinct)

subsection \<open>What the comparators of \<^verbatim>\<open>oldest\<close> and \<^verbatim>\<open>inactive\<close> select\<close>

text \<open>
  The first element after sorting with \<open>(a, b) => g(b) - g(a)\<close> has the largest \<open>g\<close>:
  the entry deleted under \<^verbatim>\<open>oldest\<close> has the largest \<^verbatim>\<open>added\<close>, the one deleted under
  \<^verbatim>\<open>inactive\<close> the largest \<^verbatim>\<open>lastAccess\<close>.
\<close>

lemma first_js_sort_largest:
  fixes g :: "'a \<Rightarrow> int"
  assumes cmp: "\<And>a b. cmp a b = Finite (g b - g a)"
    and "first (js_sort cmp ps) = Some m"
  shows "\<forall>p\<in>set ps. g p \<le> g m"
  using assms(2)
proof (induction ps arbitrary: m)
  case Nil
  then show ?case by simp
next
  case (Cons x ps)
  show ?case
  proof (cases "js_sort cmp ps")
    case Nil
    then have "set ps = {}"
      by (metis set_js_sort set_empty)
    with Cons.prems Nil show ?thesis by simp
  next
    case sorted: (Cons y ys)
    then have "first (js_sort cmp ps) = Some y" by simp
    from Cons.IH [OF this] have le: "\<forall>p\<in>set ps. g p \<le> g y" .
    from Cons.prems sorted have "first (insert_by cmp x (y # ys)) = Some m"
      by simp
    moreover have "positive (cmp x y) = (g x < g y)"
      by (simp add: cmp)
    ultimately have "m = (if g x < g y then y else x)"
      by (simp split: if_splits)
    with le show ?thesis by (auto split: if_splits)
  qed
qed

lemma first_map: "first (map f xs) = Some k \<Longrightarrow> \<exists>m. first xs = Some m \<and> f m = k"
  by (cases xs) auto

lemma oldest_victim_has_largest_added:
  assumes "rotateType (options c) = ''oldest''" and "delKey c = Inr (Some k)"
  shows "\<exists>e. (k, e) \<in> set (data c) \<and> (\<forall>p\<in>set (data c). added (snd p) \<le> added e)"
proof -
  from assms have "first (map fst (js_sort cmp_oldest (object_props (data c)))) = Some k"
    by (simp add: delKey_def)
  from first_map [OF this] obtain m
    where m: "first (js_sort cmp_oldest (object_props (data c))) = Some m" and k: "fst m = k"
    by blast
  from first_Some_mem [OF m] have mem: "m \<in> set (data c)" by simp
  from first_js_sort_largest [of cmp_oldest "\<lambda>p. added (snd p)", OF _ m]
  have "\<forall>p\<in>set (data c). added (snd p) \<le> added (snd m)"
    by (simp add: cmp_oldest_def)
  with mem k show ?thesis
    by (intro exI [of _ "snd m"]) auto
qed

lemma inactive_victim_has_largest_lastAccess:
  assumes "rotateType (options c) = ''inactive''" and "delKey c = Inr (Some k)"
  shows "\<exists>e. (k, e) \<in> set (data c) \<and> (\<forall>p\<in>set (data c). lastAccess (snd p) \<le> lastAccess e)"
proof -
  from assms have "first (map fst (js_sort cmp_inactive (object_props (data c)))) = Some k"
    by (simp add: delKey_def)
  from first_map [OF this] obtain m
    where m: "first (js_sort cmp_inactive (object_props (data c))) = Some m" and k: "fst m = k"
    by blast
  from first_Some_mem [OF m] have mem: "m \<in> set (data c)" by simp
  from first_js_sort_largest [of cmp_inactive "\<lambda>p. lastAccess (snd p)", OF _ m]
  have "\<forall>p\<in>set (data c). lastAccess (snd p) \<le> lastAccess (snd m)"
    by (simp add: cmp_inactive_def)
  with mem k show ?thesis
    by (intro exI [of _ "snd m"]) auto
qed

section \<open>The claims\<close>

subsection \<open>Rotation\<close>

text \<open>
  C1 says that under \<^verbatim>\<open>oldest\<close> a full cache evicts the entry with the smallest
  \<^verbatim>\<open>added\<close>, so that \<open>maxKeys + 1\<close> insertions lose the first key only. The comparator
  of \<^verbatim>\<open>set\<close> sorts by \<^verbatim>\<open>added\<close> descending and \<^verbatim>\<open>[0]\<close> takes the largest: with
  \<open>maxKeys = 2\<close> and keys \<open>a\<close>, \<open>b\<close>, \<open>c\<close> set at times 1, 2, 3, the code evicts \<open>b\<close>, the
  latest insertion, and keeps \<open>a\<close>, the earliest.
\<close>

theorem oldest_evicts_latest_insertion:
  "object_keys (data (run
     [OpSet ''a'' (VNumber 1) None 1 1, OpSet ''b'' (VNumber 2) None 2 2,
      OpSet ''c'' (VNumber 3) None 3 3]
     (fresh (DEFAULT_OPTIONS\<lparr>maxKeys := 2\<rparr>)))) = [''a'', ''c'']"
  by code_simp

text \<open>
  C2 says that under \<^verbatim>\<open>inactive\<close> a full cache evicts the entry with the smallest
  \<^verbatim>\<open>lastAccess\<close>, and that \<open>set a\<close>, \<open>set b\<close>, \<open>get a\<close>, \<open>set c\<close> with \<open>maxKeys = 2\<close> leaves
  \<open>a\<close> and \<open>c\<close>. The comparator sorts by \<^verbatim>\<open>lastAccess\<close> descending and \<^verbatim>\<open>[0]\<close> takes the
  largest: the code evicts \<open>a\<close>, which was read last, and leaves \<open>b\<close> and \<open>c\<close>.
\<close>

theorem inactive_evicts_latest_access:
  "object_keys (data (run
     [OpSet ''a'' (VNumber 1) None 1 1, OpSet ''b'' (VNumber 2) None 2 2, OpGet ''a'' 3,
      OpSet ''c'' (VNumber 3) None 4 4]
     (fresh (DEFAULT_OPTIONS\<lparr>maxKeys := 2, rotateType := ''inactive''\<rparr>)))) = [''b'', ''c'']"
  by code_simp

text \<open>
  C3 says that under \<^verbatim>\<open>expiry\<close> a full cache evicts the entry with the smallest
  \<^verbatim>\<open>added + ttl * ttlScale\<close>. The comparator subtracts \<^verbatim>\<open>_getTTLDate\<close>, which is
  \<^verbatim>\<open>ttl * ttlScale\<close> without \<^verbatim>\<open>added\<close>: with \<open>a\<close> set at time 0 for 10 seconds and \<open>b\<close>
  set at time 8000 for 5 seconds, \<open>a\<close> expires at 10000 and \<open>b\<close> at 13000, and the code
  evicts \<open>b\<close>.
\<close>

theorem expiry_ignores_added:
  "(let c2 = run [OpSet ''a'' (VNumber 1) (Some 10) 0 0, OpSet ''b'' (VNumber 2) (Some 5) 8000 8000]
               (fresh (DEFAULT_OPTIONS\<lparr>maxKeys := 2, rotateType := ''expiry''\<rparr>))
    in map (\<lambda>p. (fst p, added (snd p) + ttl (snd p) * ttlScale (options c2))) (data c2)
         = [(''a'', 10000), (''b'', 13000)]
       \<and> object_keys (data (run [OpSet ''c'' (VNumber 3) None 9000 9000] c2)) = [''a'', ''c''])"
  by code_simp

subsection \<open>Accounting\<close>

text \<open>
  C4 says that after every sequence of \<^verbatim>\<open>set\<close> and \<^verbatim>\<open>del\<close> the counters of
  \<^verbatim>\<open>stats\<close> equal the aggregates over the live entries. A key that names a property
  of \<^verbatim>\<open>Object.prototype\<close> passes the guard \<^verbatim>\<open>if (this.data[key])\<close> of \<^verbatim>\<open>set\<close> and the
  guard of \<^verbatim>\<open>del\<close> without being an entry: after \<^verbatim>\<open>set('constructor', 1)\<close> on a new cache
  there is one live entry, with a key of length 11 and size 8, and the counters read
  \<open>keys = 0\<close>, \<open>keySize = 0\<close>, \<open>valueSize = NaN\<close>.
\<close>

theorem stats_broken_by_inherited_key:
  "(let c = run [OpSet ''constructor'' (VNumber 1) None 1 1] (fresh DEFAULT_OPTIONS)
    in live_keys c = 1 \<and> live_keySize c = 11 \<and> live_valueSize c = 8
       \<and> stats c = \<lparr>keys = 0, hits = 0, misses = 0, keySize = 0, valueSize = NaN\<rparr>
       \<and> \<not> accounted c)"
  by code_simp

subsection \<open>A ttl of 0\<close>

text \<open>
  C5 says that \<^verbatim>\<open>set(k, v, 0)\<close> deletes at once, so that \<open>k\<close> is absent after the call.
  The code has no such case: on a new cache \<^verbatim>\<open>set('a', 1, 0)\<close> returns and \<open>a\<close> is
  the one key of the cache.
\<close>

theorem set_ttl_zero_present:
  "fst (set_op ''a'' (VNumber 1) (Some 0) 1 1 (fresh DEFAULT_OPTIONS)) = Inr ()
   \<and> object_keys (data (snd (set_op ''a'' (VNumber 1) (Some 0) 1 1 (fresh DEFAULT_OPTIONS)))) = [''a'']"
  by code_simp

text \<open>
  C5 as the code has it: whenever \<^verbatim>\<open>set(k, v, 0)\<close> returns, \<open>k\<close> is stored with the
  value \<open>v\<close>, its size, \<open>ttl = 0\<close> and the two clock readings. (A call with the key
  \<^verbatim>\<open>__proto__\<close> is outside the model and does not return in it.)
\<close>

theorem set_ttl_zero_stores:
  assumes "fst (set_op k v (Some 0) t_added t_access c) = Inr ()"
  shows "map_of (data (snd (set_op k v (Some 0) t_added t_access c))) k =
           Some \<lparr>val = v, esize = getValueSize (options c) v, ttl = 0,
                 added = t_added, lastAccess = t_access\<rparr>"
  using set_op_stores [OF assms] by simp

theorem set_ttl_zero_stores_witness:
  "fst (set_op ''a'' (VNumber 1) (Some 0) 1 1 (fresh DEFAULT_OPTIONS)) = Inr ()
   \<and> map_of (data (snd (set_op ''a'' (VNumber 1) (Some 0) 1 1 (fresh DEFAULT_OPTIONS)))) ''a'' =
       Some \<lparr>val = VNumber 1, esize = 8, ttl = 0, added = 1, lastAccess = 1\<rparr>"
proof -
  have h: "fst (set_op ''a'' (VNumber 1) (Some 0) 1 1 (fresh DEFAULT_OPTIONS)) = Inr ()"
    by code_simp
  from set_ttl_zero_stores [OF h] h show ?thesis
    by (simp add: fresh_def)
qed

subsection \<open>The sweep\<close>

text \<open>
  C6 says that the sweep fires every \<open>checkperiod * ttlScale\<close> milliseconds, scheduling
  itself again after each pass while the cache is open. The constructor calls
  \<^verbatim>\<open>setTimeout\<close> once and \<^verbatim>\<open>_expire\<close> sets no timeout: a new cache has a timeout of
  600000 pending, none is pending after it has fired, and an entry set at 600001 with
  a ttl of one second is still there however often the host looks for a timeout to run.
\<close>

theorem sweep_fires_once:
  "new_cache DEFAULT_OPTIONS = Inr (fresh DEFAULT_OPTIONS)
   \<and> checkTimeout (fresh DEFAULT_OPTIONS) = Some 600000
   \<and> checkTimeout (run [OpTimeout 600000] (fresh DEFAULT_OPTIONS)) = None
   \<and> object_keys (data (run
        [OpTimeout 600000, OpSet ''a'' (VNumber 1) (Some 1) 600001 600001,
         OpTimeout 1200000, OpTimeout 1800000]
        (fresh DEFAULT_OPTIONS))) = [''a'']"
  by code_simp

text \<open>
  C7: one pass of the sweep removes exactly the entries with \<open>ttl > -1\<close> and
  \<open>added + ttl * ttlScale < now\<close> and keeps the others in their order; the entries with
  \<open>ttl = -1\<close> are the same before and after. The keys of a JavaScript object are
  distinct, which is the hypothesis on the list of entries.
\<close>

theorem expire_removes_exactly_expired:
  assumes "distinct (map fst (data c))"
  shows "fst (expire now c) = Inr () \<and>
         data (snd (expire now c)) =
           filter (\<lambda>p. \<not> (ttl (snd p) > -1 \<and> added (snd p) + ttl (snd p) * ttlScale (options c) < now))
             (data c) \<and>
         filter (\<lambda>p. ttl (snd p) = -1) (data (snd (expire now c))) =
           filter (\<lambda>p. ttl (snd p) = -1) (data c)"
proof -
  have "distinct (object_keys (data c))"
    by (rule distinct_object_keys [OF assms])
  from expire_each_filter [OF assms this, of now]
  have ok: "fst (expire now c) = Inr ()"
    and eq: "data (snd (expire now c)) =
      filter (\<lambda>p. \<not> (fst p \<in> fst ` set (data c) \<and> expired (options c) now (snd p))) (data c)"
    by (simp_all add: expire_def)
  have eq': "data (snd (expire now c)) =
      filter (\<lambda>p. \<not> (ttl (snd p) > -1 \<and> added (snd p) + ttl (snd p) * ttlScale (options c) < now)) (data c)"
    unfolding eq by (rule filter_cong [OF refl]) (auto simp: expired_def getTTLDate_def)
  have "filter (\<lambda>p. ttl (snd p) = -1) (data (snd (expire now c))) =
           filter (\<lambda>p. ttl (snd p) = -1) (data c)"
    unfolding eq' filter_filter by (rule filter_cong [OF refl]) auto
  with ok eq' show ?thesis by simp
qed

theorem expire_removes_exactly_expired_witness:
  "(let c = run [OpSet ''a'' (VNumber 1) (Some 1) 0 0, OpSet ''b'' (VNumber 2) None 0 0,
                 OpSet ''c'' (VNumber 3) (Some 10) 0 0] (fresh DEFAULT_OPTIONS)
    in distinct (map fst (data c)) \<and> map (\<lambda>p. (fst p, ttl (snd p))) (data c) = [(''a'', 1), (''b'', -1), (''c'', 10)]
       \<and> fst (expire 5000 c) = Inr () \<and> map fst (data (snd (expire 5000 c))) = [''b'', ''c''])"
proof -
  let ?c = "run [OpSet ''a'' (VNumber 1) (Some 1) 0 0, OpSet ''b'' (VNumber 2) None 0 0,
                 OpSet ''c'' (VNumber 3) (Some 10) 0 0] (fresh DEFAULT_OPTIONS)"
  have h: "distinct (map fst (data ?c))"
    by code_simp
  have v: "map (\<lambda>p. (fst p, ttl (snd p))) (data ?c) = [(''a'', 1), (''b'', -1), (''c'', 10)]"
    by code_simp
  have f: "map fst (filter (\<lambda>p. \<not> (ttl (snd p) > -1 \<and> added (snd p) + ttl (snd p) * ttlScale (options ?c) < 5000))
             (data ?c)) = [''b'', ''c'']"
    by code_simp
  from expire_removes_exactly_expired [OF h, of 5000] h v f show ?thesis
    by (simp add: Let_def)
qed

subsection \<open>\<^verbatim>\<open>mset\<close>\<close>

text \<open>
  C8: under \<^verbatim>\<open>none\<close>, when the keys counted and the length of the batch together
  exceed \<open>maxKeys\<close>, \<^verbatim>\<open>mset\<close> raises the capacity error and leaves the cache, entries and
  counters, as it was.
\<close>

theorem mset_none_rejects:
  assumes "rotateType (options c) = ''none''"
    and "maxKeys (options c) < keys (stats c) + int (length batch)"
  shows "mset batch clock c = (Inl CapacityExceeded, c)"
  using assms by (simp add: mset_def ROTATE_TYPES_def)

theorem mset_none_rejects_witness:
  "mset [(''a'', VNumber 1, None), (''b'', VNumber 2, None), (''c'', VNumber 3, None)] (\<lambda>i. (1, 1))
     (fresh (DEFAULT_OPTIONS\<lparr>maxKeys := 2, rotateType := ''none''\<rparr>))
   = (Inl CapacityExceeded, fresh (DEFAULT_OPTIONS\<lparr>maxKeys := 2, rotateType := ''none''\<rparr>))
   \<and> data (fresh (DEFAULT_OPTIONS\<lparr>maxKeys := 2, rotateType := ''none''\<rparr>)) = []"
proof -
  let ?c = "fresh (DEFAULT_OPTIONS\<lparr>maxKeys := 2, rotateType := ''none''\<rparr>)"
  let ?batch = "[(''a'', VNumber 1, None), (''b'', VNumber 2, None), (''c'', VNumber (3::int), None :: int option)]"
  have h1: "rotateType (options ?c) = ''none''"
    by (simp add: fresh_def)
  have h2: "maxKeys (options ?c) < keys (stats ?c) + int (length ?batch)"
    by (simp add: fresh_def)
  from mset_none_rejects [OF h1 h2, of "\<lambda>i. (1, 1)"] show ?thesis
    by (simp add: fresh_def)
qed

text \<open>
  C10: under \<^verbatim>\<open>none\<close>, \<^verbatim>\<open>mset\<close> raises the capacity error exactly when the keys
  counted plus the length of the batch exceed \<open>maxKeys\<close>, whether or not the keys of
  the batch are in the cache already. So a batch of overwrites can fail: with \<open>a\<close> and
  \<open>b\<close> in a cache of \<open>maxKeys = 2\<close>, \<^verbatim>\<open>mset\<close> of \<open>a\<close> and \<open>b\<close> raises, although setting them
  one after the other returns and leaves two keys.
\<close>

theorem mset_none_raises_iff:
  assumes "rotateType (options c) = ''none''"
  shows "(fst (mset batch clock c) = Inl CapacityExceeded) =
         (maxKeys (options c) < keys (stats c) + int (length batch))"
proof (cases "maxKeys (options c) < keys (stats c) + int (length batch)")
  case True
  with assms show ?thesis
    by (simp add: mset_def ROTATE_TYPES_def)
next
  case False
  then have "keys (stats c) + int (length batch) \<le> maxKeys (options c)"
    by simp
  from mset_each_with_room [OF this] False show ?thesis
    by (simp add: mset_def)
qed

theorem mset_none_raises_iff_witness:
  "(let c = run [OpSet ''a'' (VNumber 1) None 1 1, OpSet ''b'' (VNumber 2) None 2 2]
              (fresh (DEFAULT_OPTIONS\<lparr>maxKeys := 2, rotateType := ''none''\<rparr>));
        batch = [(''a'', VNumber 10, None), (''b'', VNumber 20, None)]
    in rotateType (options c) = ''none'' \<and> object_keys (data c) = [''a'', ''b'']
       \<and> keys (stats c) = 2 \<and> maxKeys (options c) = 2
       \<and> fst (mset batch (\<lambda>i. (3, 3)) c) = Inl CapacityExceeded
       \<and> fst (mset_each batch (\<lambda>i. (3, 3)) 0 c) = Inr ()
       \<and> keys (stats (snd (mset_each batch (\<lambda>i. (3, 3)) 0 c))) = 2)"
proof -
  let ?c = "run [OpSet ''a'' (VNumber 1) None 1 1, OpSet ''b'' (VNumber 2) None 2 2]
              (fresh (DEFAULT_OPTIONS\<lparr>maxKeys := 2, rotateType := ''none''\<rparr>))"
  let ?batch = "[(''a'', VNumber 10, None), (''b'', VNumber 20, None :: int option)]"
  have h: "rotateType (options ?c) = ''none''"
    by code_simp
  have v: "object_keys (data ?c) = [''a'', ''b''] \<and> keys (stats ?c) = 2 \<and> maxKeys (options ?c) = 2
       \<and> fst (mset_each ?batch (\<lambda>i. (3, 3)) 0 ?c) = Inr ()
       \<and> keys (stats (snd (mset_each ?batch (\<lambda>i. (3, 3)) 0 ?c))) = 2"
    by code_simp
  from mset_none_raises_iff [OF h, of ?batch "\<lambda>i. (3, 3)"] h v show ?thesis
    by (simp add: Let_def)
qed

subsection \<open>\<^verbatim>\<open>ttl(k, 0)\<close> and \<^verbatim>\<open>del(k)\<close>\<close>




end
